theory Spec2Isabelle
  imports Main
begin

section \<open>JavaScript values, errors and lodash helpers\<close>

text \<open>
  The values that flow through the authorization code: GraphQL arguments, operation
  results and authorization results. A plain object is an association list from keys to
  values (keys are GraphQL names, so they hold no dot or bracket and are unique per
  object); an array is seen by lodash's \<open>mapValues\<close> and \<open>get\<close> as an object keyed by
  its indices and is written that way. A fulfilled promise wraps its value. Strings are
  atomic: their character indices are not modelled as keys.
\<close>

datatype jsval =
    VUndefined
  | VNull
  | VBool bool
  | VNum int
  | VStr string
  | VObj "(string \<times> jsval) list"
  | VPromise jsval

text \<open>Everything the code can throw or reject with.\<close>

datatype error =
    TypeError
  | RangeError
  | GraphQLError string
  | UnknownQueryType string
  | AuthorizationError jsval
  | Rejected jsval

text \<open>JavaScript truthiness, as tested by \<open>!x\<close> and \<open>x && y\<close>.\<close>

fun truthy :: "jsval \<Rightarrow> bool" where
  "truthy VUndefined = False"
| "truthy VNull = False"
| "truthy (VBool b) = b"
| "truthy (VNum n) = (n \<noteq> 0)"
| "truthy (VStr s) = (s \<noteq> [])"
| "truthy (VObj kvs) = True"
| "truthy (VPromise p) = True"

definition js_and :: "jsval \<Rightarrow> jsval \<Rightarrow> jsval" where
  "js_and a b = (if truthy a then b else a)"

text \<open>\<open>await x\<close>: the settled value of a promise, any other value as it is.\<close>

fun await :: "jsval \<Rightarrow> jsval" where
  "await (VPromise v) = await v"
| "await v = v"

text \<open>Property read \<open>object[key]\<close>; \<open>undefined\<close> on a missing key or a non-object.\<close>

fun ownProp :: "jsval \<Rightarrow> string \<Rightarrow> jsval" where
  "ownProp (VObj kvs) k = (case map_of kvs k of None \<Rightarrow> VUndefined | Some v \<Rightarrow> v)"
| "ownProp v k = VUndefined"

text \<open>
  lodash \<open>get(object, path)\<close> with no default. A dot-joined path string is the list of
  its keys.
\<close>

fun jget :: "jsval \<Rightarrow> string list \<Rightarrow> jsval" where
  "jget v [] = v"
| "jget v (k # ks) = jget (ownProp v k) ks"

text \<open>
  The own enumerable entries that \<open>mapValues\<close> walks. A string has none here;
  lodash would walk its characters.
\<close>

fun ownEntries :: "jsval \<Rightarrow> (string \<times> jsval) list" where
  "ownEntries (VObj kvs) = kvs"
| "ownEntries v = []"

section \<open>Operation-kind classification (withAuthorization.js)\<close>

text \<open>
  \<open>matchQueryType = /(create|update|upsert|delete|updateMany|deleteMany)/\<close>: the
  alternatives in the order of the source.
\<close>

definition matchQueryType :: "string list" where
  "matchQueryType =
     [''create'', ''update'', ''upsert'', ''delete'', ''updateMany'', ''deleteMany'']"

fun startsWith :: "string \<Rightarrow> string \<Rightarrow> bool" where
  "startsWith s [] = True"
| "startsWith [] (c # cs) = False"
| "startsWith (x # xs) (c # cs) = (x = c \<and> startsWith xs cs)"

text \<open>At one position, the regex engine tries the alternatives from left to right.\<close>

fun matchAlternatives :: "string list \<Rightarrow> string \<Rightarrow> string option" where
  "matchAlternatives [] s = None"
| "matchAlternatives (a # as) s =
     (if startsWith s a then Some a else matchAlternatives as s)"

text \<open>
  \<open>RegExp.prototype.exec\<close> without the sticky or global flag: the positions of the
  input are tried from the left, and the first position where an alternative matches
  decides. The result is the text of capture group 1.
\<close>

fun regexExec :: "string list \<Rightarrow> string \<Rightarrow> string option" where
  "regexExec alts [] = matchAlternatives alts []"
| "regexExec alts (c # cs) =
     (case matchAlternatives alts (c # cs) of
        Some a \<Rightarrow> Some a
      | None \<Rightarrow> regexExec alts cs)"

definition getQueryType :: "string \<Rightarrow> error + string" where
  "getQueryType queryName =
     (case regexExec matchQueryType queryName of
        Some m \<Rightarrow> if m \<noteq> [] then Inr m else Inl (UnknownQueryType queryName)
      | None \<Rightarrow> Inl (UnknownQueryType queryName))"

text \<open>
  \<open>queryName.replace(queryType, '')\<close> with a string pattern: the first occurrence of
  the pattern is removed, the rest of the name is kept.
\<close>

fun removeFirst :: "string \<Rightarrow> string \<Rightarrow> string" where
  "removeFirst tok [] = []"
| "removeFirst tok (c # cs) =
     (if startsWith (c # cs) tok then drop (length tok) (c # cs)
      else c # removeFirst tok cs)"

section \<open>Summarizing an authorization result (withAuthorization.js)\<close>

text \<open>
  \<open>traverse(sum, level)\<close>: a boolean \<open>level\<close> is and-ed onto \<open>sum\<close> (written \<open>acc\<close> here); anything else is
  folded over \<open>Object.values(level)\<close>. \<open>Object.values\<close> throws a TypeError on
  \<open>null\<close> and \<open>undefined\<close>, and is empty for a number and for a promise. The values
  of a non-empty string are its characters, each a string whose only value is itself, so
  the recursion never ends and the engine throws a RangeError when the stack is full.
\<close>

fun traverse :: "jsval \<Rightarrow> jsval \<Rightarrow> error + jsval"
  and traverseValues :: "jsval \<Rightarrow> (string \<times> jsval) list \<Rightarrow> error + jsval" where
  "traverse acc (VBool b) = Inr (js_and acc (VBool b))"
| "traverse acc (VObj kvs) = traverseValues acc kvs"
| "traverse acc VUndefined = Inl TypeError"
| "traverse acc VNull = Inl TypeError"
| "traverse acc (VNum n) = Inr acc"
| "traverse acc (VPromise p) = Inr acc"
| "traverse acc (VStr s) = (if s = [] then Inr acc else Inl RangeError)"
| "traverseValues acc [] = Inr acc"
| "traverseValues acc ((k, v) # kvs) =
     (case traverse acc v of
        Inl e \<Rightarrow> Inl e
      | Inr s \<Rightarrow> traverseValues s kvs)"

text \<open>
  \<open>summarizeAuthResult\<close> ends in \<open>return traverse(authResult, true)\<close>: the result
  tree is passed as \<open>sum\<close> and the literal \<open>true\<close> as \<open>level\<close>.
\<close>

definition summarizeAuthResult :: "jsval \<Rightarrow> error + jsval" where
  "summarizeAuthResult authResult = traverse authResult (VBool True)"

section \<open>The authorizing wrapper of withAuthorization.js\<close>

text \<open>
  The state of one request: the data layer behind \<open>prisma\<close>, the log of the calls
  made to the wrapped \<open>queryFunction\<close> (arguments and selection), and the local
  variable \<open>runResult\<close> of \<open>wrapped\<close>. Asynchronous code is run to completion
  at the point where it is started: an \<open>await\<close> hands back the settled value at once,
  so a call of \<open>run()\<close> that starts while an earlier one is still pending is not told
  apart from one that starts after it has settled.
\<close>

record 'w rstate =
  world :: 'w
  calls :: "(jsval \<times> string) list"
  runResult :: jsval

type_synonym 'w outcome = "(error + jsval) \<times> 'w rstate"

type_synonym 'w runFn = "'w rstate \<Rightarrow> 'w outcome"

text \<open>The \<open>ctx\<close> object handed to predicates; its \<open>prisma\<close> is the world of the state.\<close>

record authctx =
  graphqlContext :: jsval
  user :: jsval

text \<open>
  What a predicate function does when it is called: it returns a value or throws
  (\<open>Done\<close>), it calls the \<open>run\<close> handle it was given and goes on with the
  settlement (\<open>CallRun\<close>), or it reads or writes the data layer through
  \<open>ctx.prisma\<close> (\<open>ReadWorld\<close>, \<open>WriteWorld\<close>). The variable \<open>runResult\<close> is local
  to \<open>wrapped\<close>: a predicate reaches it through \<open>run\<close> only.
\<close>

datatype 'w action =
    Done "error + jsval"
  | CallRun "error + jsval \<Rightarrow> 'w action"
  | ReadWorld "'w \<Rightarrow> 'w action"
  | WriteWorld "'w \<Rightarrow> 'w" "'w action"

primrec perform :: "'w runFn \<Rightarrow> 'w action \<Rightarrow> 'w rstate \<Rightarrow> 'w outcome" where
  "perform runFn (Done r) st = (r, st)"
| "perform runFn (CallRun k) st = (case runFn st of (r, st') \<Rightarrow> perform runFn (k r) st')"
| "perform runFn (ReadWorld k) st = perform runFn (k (world st)) st"
| "perform runFn (WriteWorld f a) st = perform runFn a (st\<lparr>world := f (world st)\<rparr>)"

text \<open>
  A node of the authorization mapping, by the shape tests of \<open>processPath\<close>: a boolean,
  a string, a plain object, a function of \<open>(rootArgs, run, ctx)\<close>, or any other value
  (\<open>null\<close>, a number, an array), which is not callable. The lookup reads own keys:
  the members that every object inherits from \<open>Object.prototype\<close> (\<open>toString\<close>,
  \<open>constructor\<close> and the like), which lodash's \<open>get\<close> would find under such a key,
  are not modelled.
\<close>

datatype 'w policy =
    PBool bool
  | PStr string
  | PObj "(string \<times> 'w policy) list"
  | PFun "jsval \<Rightarrow> authctx \<Rightarrow> 'w action"
  | POther

fun policyProp :: "'w policy \<Rightarrow> string \<Rightarrow> 'w policy option" where
  "policyProp (PObj kvs) k = map_of kvs k"
| "policyProp p k = None"

fun policyGet :: "'w policy \<Rightarrow> string list \<Rightarrow> 'w policy option" where
  "policyGet p [] = Some p"
| "policyGet p (k # ks) =
     (case policyProp p k of None \<Rightarrow> None | Some q \<Rightarrow> policyGet q ks)"

text \<open>
  The variables that the closures capture. From the exported function: the mapping of
  the user's role (the result of \<open>roleAuthMapping\<close>, which is not part of the
  sources at hand), the user, and the two library functions \<open>camel\<close> (change-case)
  and \<open>gql\<close> (graphql-tag, which throws when it cannot parse the selection;
  \<open>gqlParses\<close> tells whether it can). From \<open>wrapQuery\<close>: the resource name and the
  query type, which \<open>wrapQuery\<close> sets.
\<close>

record 'w scope =
  authMapping :: "'w policy"
  caller :: jsval
  camel :: "string \<Rightarrow> string"
  gqlParses :: "string \<Rightarrow> bool"
  resourceName :: string
  queryType :: string

text \<open>\<open>get(authMapping, `${resourceName}.${queryType}.${queryPath}`, false)\<close>\<close>

definition getAuthResolver :: "'w scope \<Rightarrow> string list \<Rightarrow> 'w policy" where
  "getAuthResolver sc queryPath =
     (case policyGet (authMapping sc) (resourceName sc # queryType sc # queryPath) of
        None \<Rightarrow> PBool False
      | Some p \<Rightarrow> p)"

definition createSubLevelRunFn :: "string list \<Rightarrow> 'w runFn \<Rightarrow> 'w runFn" where
  "createSubLevelRunFn path run st =
     (case run st of
        (Inl e, st') \<Rightarrow> (Inl e, st')
      | (Inr result, st') \<Rightarrow> (Inr (jget result path), st'))"

text \<open>
  \<open>get\<close> with a path of at least one key either misses (\<open>undefined\<close>) or lands on
  a proper part of the value: the delegation of \<open>processPath\<close> descends in the
  arguments, which is why the recursion below ends.
\<close>

lemma size_map_of:
  "map_of kvs k = Some v \<Longrightarrow> size v < Suc (size_list (size_prod (\<lambda>x. 0) size) kvs)"
  by (induction kvs) (auto split: if_splits)

lemma size_ownProp: "ownProp a k = VUndefined \<or> size (ownProp a k) < size a"
  by (cases a) (auto split: option.splits dest: size_map_of)

lemma jget_VUndefined: "jget VUndefined p = VUndefined"
  by (induction p) auto

lemma size_jget:
  "p \<noteq> [] \<Longrightarrow> jget a p = VUndefined \<or> size (jget a p) < size a"
proof (induction p arbitrary: a)
  case Nil
  then show ?case by simp
next
  case (Cons k ks)
  show ?case
  proof (cases "ks = []")
    case True
    then show ?thesis using size_ownProp [of a k] by auto
  next
    case False
    from Cons.IH [OF False, of "ownProp a k"] size_ownProp [of a k]
    show ?thesis by (auto simp: jget_VUndefined)
  qed
qed

text \<open>
  \<open>processAuth\<close> with its two inner functions \<open>processPath\<close> and
  \<open>processLevel\<close>; \<open>processValues\<close> is the loop of \<open>mapValues\<close> inside
  \<open>processLevel\<close>, which visits the entries in key order and stops at the first
  exception. An undefined \<open>levelKey\<close> is the empty path.
\<close>

function processAuth ::
    "'w scope \<Rightarrow> jsval \<Rightarrow> 'w runFn \<Rightarrow> string \<Rightarrow> authctx \<Rightarrow> 'w rstate \<Rightarrow> 'w outcome"
  and processLevel ::
    "'w scope \<Rightarrow> jsval \<Rightarrow> 'w runFn \<Rightarrow> string \<Rightarrow> authctx \<Rightarrow> jsval \<Rightarrow> string list
      \<Rightarrow> 'w rstate \<Rightarrow> 'w outcome"
  and processValues ::
    "'w scope \<Rightarrow> jsval \<Rightarrow> 'w runFn \<Rightarrow> string \<Rightarrow> authctx \<Rightarrow> (string \<times> jsval) list
      \<Rightarrow> string list \<Rightarrow> 'w rstate \<Rightarrow> (error + (string \<times> jsval) list) \<times> 'w rstate"
  and processPath ::
    "'w scope \<Rightarrow> jsval \<Rightarrow> 'w runFn \<Rightarrow> string \<Rightarrow> authctx \<Rightarrow> jsval \<Rightarrow> 'w policy
      \<Rightarrow> string list \<Rightarrow> 'w rstate \<Rightarrow> 'w outcome" where
  "processAuth sc rootArgs run info ctx st =
     (if \<not> gqlParses sc info then (Inl (GraphQLError info), st)
      else processLevel sc rootArgs run info ctx rootArgs [] st)"
| "processLevel sc rootArgs run info ctx args levelKey st =
     (case processValues sc rootArgs run info ctx (ownEntries args) levelKey st of
        (Inl e, st') \<Rightarrow> (Inl e, st')
      | (Inr kvs, st') \<Rightarrow> (Inr (VObj kvs), st'))"
| "processValues sc rootArgs run info ctx [] levelKey st = (Inr [], st)"
| "processValues sc rootArgs run info ctx ((key, val) # rest) levelKey st =
     (let absKey = levelKey @ [key];
          authResolver = getAuthResolver sc absKey
      in case processPath sc rootArgs run info ctx val authResolver absKey st of
           (Inl e, st') \<Rightarrow> (Inl e, st')
         | (Inr r, st') \<Rightarrow>
             (case processValues sc rootArgs run info ctx rest levelKey st' of
                (Inl e, st'') \<Rightarrow> (Inl e, st'')
              | (Inr rs, st'') \<Rightarrow> (Inr ((key, r) # rs), st'')))"
| "processPath sc rootArgs run info ctx val authResolver absoluteKey st =
     (case authResolver of
        PObj m \<Rightarrow> processLevel sc rootArgs run info ctx val absoluteKey st
      | PBool b \<Rightarrow> (Inr (VBool b), st)
      | PStr other \<Rightarrow>
          (let subArgs = jget rootArgs absoluteKey;
               subRun = createSubLevelRunFn absoluteKey run
           in processAuth sc subArgs subRun info ctx st)
      | PFun f \<Rightarrow> perform run (f rootArgs ctx) st
      | POther \<Rightarrow> (Inl TypeError, st))"
  by pat_completeness auto

termination
  apply (relation "inv_image (less_than <*lex*> less_than)
     (\<lambda>x. case x of
        Inl (Inl (sc, a, run, info, ctx, st)) \<Rightarrow> (size a, 4 * size a + 2)
      | Inl (Inr (sc, a, run, info, ctx, args, lk, st)) \<Rightarrow> (size a, 4 * size args + 1)
      | Inr (Inl (sc, a, run, info, ctx, kvs, lk, st)) \<Rightarrow>
          (size a, 4 * size_list (size_prod (\<lambda>x. 0) size) kvs)
      | Inr (Inr (sc, a, run, info, ctx, v, r, p, st)) \<Rightarrow>
          (size a, if p = [] then 4 * (size a + size v) + 3 else 4 * size v + 3))")
        apply (simp_all del: wf_inv_image)
  subgoal by (intro wf_inv_image wf_lex_prod wf_less_than)
  subgoal for args by (cases args) simp_all
  subgoal for rootArgs run val authResolver absoluteKey
    using size_jget [of absoluteKey rootArgs] by auto
  done

text \<open>
  The data operation \<open>queryFunction(args, info)\<close> acts on the data layer and either
  resolves with a value or rejects.
\<close>

type_synonym 'w queryFn = "jsval \<Rightarrow> string \<Rightarrow> 'w \<Rightarrow> (error + jsval) \<times> 'w"

text \<open>
  The \<open>run\<close> closure of \<open>wrapped\<close>: when \<open>runResult\<close> is falsy it calls
  \<open>queryFunction\<close> and stores what it resolves with; a rejection leaves
  \<open>runResult\<close> as it was.
\<close>

definition run :: "'w queryFn \<Rightarrow> jsval \<Rightarrow> string \<Rightarrow> 'w runFn" where
  "run queryFunction args info st =
     (if \<not> truthy (runResult st) then
        (case queryFunction args info (world st) of
           (Inl e, w') \<Rightarrow>
             (Inl e, st\<lparr>world := w', calls := calls st @ [(args, info)]\<rparr>)
         | (Inr r, w') \<Rightarrow>
             (Inr r, st\<lparr>world := w', calls := calls st @ [(args, info)],
                          runResult := r\<rparr>))
      else (Inr (runResult st), st))"

definition wrapped ::
    "'w scope \<Rightarrow> 'w queryFn \<Rightarrow> jsval \<Rightarrow> string \<Rightarrow> jsval \<Rightarrow> 'w \<Rightarrow> 'w outcome" where
  "wrapped sc queryFunction args info ctx w =
     (let st0 = \<lparr>world = w, calls = [], runResult = VUndefined\<rparr>;
          runFn = run queryFunction args info
      in case processAuth sc args runFn info
                \<lparr>graphqlContext = ctx, user = caller sc\<rparr> st0 of
           (Inl e, st1) \<Rightarrow> (Inl e, st1)
         | (Inr r, st1) \<Rightarrow>
             (let authResult = await r
              in case summarizeAuthResult authResult of
                   Inl e \<Rightarrow> (Inl e, st1)
                 | Inr isAuthorized \<Rightarrow>
                     if \<not> truthy isAuthorized
                     then (Inl (AuthorizationError authResult), st1)
                     else runFn st1))"

type_synonym 'w wrappedFn = "jsval \<Rightarrow> string \<Rightarrow> jsval \<Rightarrow> 'w \<Rightarrow> 'w outcome"

definition wrapQuery ::
    "'w scope \<Rightarrow> 'w queryFn \<Rightarrow> bool \<Rightarrow> string \<Rightarrow> error + 'w wrappedFn" where
  "wrapQuery sc queryFunction isRead queryName =
     (case (if isRead then Inr ''get'' else getQueryType queryName) of
        Inl e \<Rightarrow> Inl e
      | Inr qt \<Rightarrow>
          Inr (wrapped
                 (sc\<lparr>resourceName := camel sc (removeFirst qt queryName),
                     queryType := qt\<rparr>)
                 queryFunction))"




section \<open>The three-phase pipeline of class Authorized\<close>

text \<open>
  The newer entry point is the class \<open>Authorized\<close>. Its collaborators are imported
  from modules that are not part of the sources at hand (\<open>./utils\<close>,
  \<open>./Authorizer\<close>) or from libraries, so they are parameters here:
  \<^item> \<open>getInputTypes\<close> and \<open>getResponseType\<close> stand for \<open>getQueryTypes.input\<close> and
    \<open>getQueryTypes.response\<close>, which read the type definitions;
  \<^item> \<open>authorize\<close> stands for \<open>new Authorizer(map).authorize\<close>; it may read the data
    layer through \<open>context.prisma\<close> and may reject;
  \<^item> \<open>summarizeResult\<close> stands for \<open>summarizeAuthResult\<close> of \<open>./utils\<close>;
  \<^item> \<open>annotateAuthResultWithInputTypes\<close>, \<open>pascal\<close> and
    \<open>applyDerivedTypePermissions\<close> are named as in the source.
  The permission map \<open>'m\<close>, the type definitions \<open>'t\<close>, the user \<open>'u\<close> and the
  data layer \<open>'w\<close> are left abstract.
\<close>

datatype rootType = Query | Mutation

fun rootTypeString :: "rootType \<Rightarrow> string" where
  "rootTypeString Query = ''Query''"
| "rootTypeString Mutation = ''Mutation''"

record 'u authContext =
  ctxUser :: 'u
  ctxGraphql :: jsval

record queryRootData =
  rootFieldName :: string
  rootTypeName :: string
  inputs :: jsval

record 'u authorizeArgs =
  typeName :: "string option"
  authType :: string
  subject :: jsval
  authContext :: "'u authContext"
  rootData :: queryRootData

record ('w, 'm, 't, 'u) collaborators =
  getInputTypes :: "'t \<Rightarrow> rootType \<Rightarrow> string \<Rightarrow> string \<Rightarrow> string option"
  getResponseType :: "'t \<Rightarrow> rootType \<Rightarrow> string \<Rightarrow> string option"
  authorize :: "'m \<Rightarrow> 'u authorizeArgs \<Rightarrow> 'w \<Rightarrow> (error + jsval) \<times> 'w"
  summarizeResult :: "jsval \<Rightarrow> error + jsval"
  annotateAuthResultWithInputTypes :: "jsval \<Rightarrow> (string \<Rightarrow> string option) \<Rightarrow> jsval"
  pascal :: "string \<Rightarrow> string"
  applyDerivedTypePermissions :: "'t \<Rightarrow> 'm \<Rightarrow> 'm"

text \<open>
  What a request leaves behind: the data layer and the log of the calls that the
  pipeline made to \<open>queryFunction\<close>.
\<close>

record 'w pstate =
  dataLayer :: 'w
  invocations :: "(jsval \<times> string) list"

text \<open>
  \<open>validateInputs\<close>: \<open>mapValues\<close> starts one \<open>authorize\<close> call per top-level input,
  in key order, each with \<open>authType: 'write'\<close> and the input type of its key.

  Modelled from the spec: \<open>mapPromiseValues\<close> (of \<open>./utils\<close>, not part of the sources
  at hand) settles every value of the object; the level's result is the mapping of all
  child results, and a rejected child rejects the whole.
\<close>

fun validateInputs ::
    "('w, 'm, 't, 'u) collaborators \<Rightarrow> 'm \<Rightarrow> (string \<Rightarrow> string option) \<Rightarrow> 'u authContext
      \<Rightarrow> queryRootData \<Rightarrow> (string \<times> jsval) list \<Rightarrow> 'w
      \<Rightarrow> (error + (string \<times> jsval) list) \<times> 'w" where
  "validateInputs c pm inputTypes cx rd [] w = (Inr [], w)"
| "validateInputs c pm inputTypes cx rd ((key, val) # rest) w =
     (case authorize c pm
             \<lparr>typeName = inputTypes key, authType = ''write'', subject = val,
              authContext = cx, rootData = rd\<rparr> w of
        (r, w') \<Rightarrow>
          (case validateInputs c pm inputTypes cx rd rest w' of
             (rs, w'') \<Rightarrow>
               (case r of
                  Inl e \<Rightarrow> (Inl e, w'')
                | Inr v \<Rightarrow>
                    (case rs of
                       Inl e \<Rightarrow> (Inl e, w'')
                     | Inr vs \<Rightarrow> (Inr ((key, v) # vs), w'')))))"

text \<open>\<open>validateResponse\<close>: one \<open>authorize\<close> call with \<open>authType: 'read'\<close>.\<close>

definition validateResponse ::
    "('w, 'm, 't, 'u) collaborators \<Rightarrow> 'm \<Rightarrow> string option \<Rightarrow> 'u authContext
      \<Rightarrow> queryRootData \<Rightarrow> jsval \<Rightarrow> 'w \<Rightarrow> (error + jsval) \<times> 'w" where
  "validateResponse c pm responseType cx rd queryResponse w =
     authorize c pm
       \<lparr>typeName = responseType, authType = ''read'', subject = queryResponse,
        authContext = cx, rootData = rd\<rparr> w"

text \<open>
  Phase 1 of the wrapped function, for mutations only: \<open>None\<close> when the inputs are
  valid, the thrown error otherwise.
\<close>

definition inputPhase ::
    "('w, 'm, 't, 'u) collaborators \<Rightarrow> 'm \<Rightarrow> (string \<Rightarrow> string option) \<Rightarrow> 'u authContext
      \<Rightarrow> queryRootData \<Rightarrow> jsval \<Rightarrow> 'w \<Rightarrow> error option \<times> 'w" where
  "inputPhase c pm inputTypes cx rd ins w =
     (case validateInputs c pm inputTypes cx rd (ownEntries ins) w of
        (Inl e, w1) \<Rightarrow> (Some e, w1)
      | (Inr kvs, w1) \<Rightarrow>
          (let inputValidationResult = VObj kvs
           in case summarizeResult c inputValidationResult of
                Inl e \<Rightarrow> (Some e, w1)
              | Inr areInputsValid \<Rightarrow>
                  if \<not> truthy areInputsValid
                  then (Some (AuthorizationError
                          (annotateAuthResultWithInputTypes c inputValidationResult
                             inputTypes)), w1)
                  else (None, w1)))"

text \<open>
  The function that \<open>wrapQuery\<close> returns inside \<open>forUser\<close>, with the variables it
  captures (\<open>this.typeDefs\<close>, the complete permission map of the authorizer, the user)
  as arguments.
\<close>

definition Authorized_wrapQuery ::
    "('w, 'm, 't, 'u) collaborators \<Rightarrow> 't \<Rightarrow> 'm \<Rightarrow> 'u \<Rightarrow> 'w queryFn \<Rightarrow> rootType \<Rightarrow> string
      \<Rightarrow> jsval \<Rightarrow> string \<Rightarrow> jsval \<Rightarrow> 'w pstate \<Rightarrow> (error + jsval) \<times> 'w pstate" where
  "Authorized_wrapQuery c tds pm usr queryFunction rootType queryName ins info ctx st =
     (let isRead = (rootType = Query);
          cx = \<lparr>ctxUser = usr, ctxGraphql = ctx\<rparr>;
          inputTypes = getInputTypes c tds rootType queryName;
          responseType = getResponseType c tds rootType queryName;
          rd = \<lparr>rootFieldName = queryName,
                rootTypeName = pascal c (rootTypeString rootType),
                inputs = ins\<rparr>
      in case (if \<not> isRead then inputPhase c pm inputTypes cx rd ins (dataLayer st)
               else (None, dataLayer st)) of
           (Some e, w1) \<Rightarrow> (Inl e, st\<lparr>dataLayer := w1\<rparr>)
         | (None, w1) \<Rightarrow>
             (let logged = invocations st @ [(ins, info)]
              in case queryFunction ins info w1 of
                   (Inl e, w2) \<Rightarrow> (Inl e, \<lparr>dataLayer = w2, invocations = logged\<rparr>)
                 | (Inr queryResponse, w2) \<Rightarrow>
                     (case validateResponse c pm responseType cx rd queryResponse w2 of
                        (Inl e, w3) \<Rightarrow>
                          (Inl e, \<lparr>dataLayer = w3, invocations = logged\<rparr>)
                      | (Inr responseValidationResult, w3) \<Rightarrow>
                          (case summarizeResult c responseValidationResult of
                             Inl e \<Rightarrow> (Inl e, \<lparr>dataLayer = w3, invocations = logged\<rparr>)
                           | Inr isResponseValid \<Rightarrow>
                               if \<not> truthy isResponseValid
                               then (Inl (AuthorizationError responseValidationResult),
                                     \<lparr>dataLayer = w3, invocations = logged\<rparr>)
                               else (Inr queryResponse,
                                     \<lparr>dataLayer = w3, invocations = logged\<rparr>)))))"

subsection \<open>The per-user cache\<close>

text \<open>
  What \<open>forUser\<close> builds for a user: the wrapped operations, which are closures over
  the user and over the authorizer made from the complete permission map. The closures
  are represented by what they capture.
\<close>

record ('m, 'u) userApi =
  apiUser :: 'u
  apiPermissionMap :: 'm

text \<open>
  The fields of an \<open>Authorized\<close> object, with the cache of the memoized \<open>forUser\<close>.

  Modelled from the spec: the cache class \<open>UserRoleWeakMap\<close> (of \<open>./utils\<close>, not part
  of the sources at hand) is a map keyed by principal identity, and its \<open>clear\<close>
  empties it.
\<close>

record ('m, 't, 'u) authorized =
  permissionMap :: 'm
  typeDefs :: 't
  autoGenerateDerivedTypePermissions :: "bool option"
  cache :: "'u \<rightharpoonup> ('m, 'u) userApi"

definition setPermissionMap ::
    "'m \<Rightarrow> ('m, 't, 'u) authorized \<Rightarrow> ('m, 't, 'u) authorized" where
  "setPermissionMap pm this = this\<lparr>permissionMap := pm, cache := Map.empty\<rparr>"

text \<open>
  lodash \<open>memoize\<close>: a key that the cache has is answered from the cache; otherwise the
  function runs and its result is stored. The option
  \<open>autoGenerateDerivedTypePermissions\<close> defaults to \<open>true\<close>.
\<close>

definition forUser ::
    "('w, 'm, 't, 'u) collaborators \<Rightarrow> 'u \<Rightarrow> ('m, 't, 'u) authorized
      \<Rightarrow> ('m, 'u) userApi \<times> ('m, 't, 'u) authorized" where
  "forUser c usr this =
     (case cache this usr of
        Some api \<Rightarrow> (api, this)
      | None \<Rightarrow>
          (let auto = (case autoGenerateDerivedTypePermissions this of
                         None \<Rightarrow> True | Some b \<Rightarrow> b);
               completePermissionMap =
                 (if auto
                  then applyDerivedTypePermissions c (typeDefs this) (permissionMap this)
                  else permissionMap this);
               api = \<lparr>apiUser = usr, apiPermissionMap = completePermissionMap\<rparr>
           in (api, this\<lparr>cache := (cache this)(usr \<mapsto> api)\<rparr>)))"

text \<open>Calling an operation of the object that \<open>forUser\<close> returned.\<close>

definition callWrapped ::
    "('w, 'm, 't, 'u) collaborators \<Rightarrow> ('m, 't, 'u) authorized \<Rightarrow> ('m, 'u) userApi
      \<Rightarrow> 'w queryFn \<Rightarrow> rootType \<Rightarrow> string
      \<Rightarrow> jsval \<Rightarrow> string \<Rightarrow> jsval \<Rightarrow> 'w pstate \<Rightarrow> (error + jsval) \<times> 'w pstate" where
  "callWrapped c this api queryFunction rootType queryName =
     Authorized_wrapQuery c (typeDefs this) (apiPermissionMap api) (apiUser api)
       queryFunction rootType queryName"

section \<open>Predicates of the claims and example inputs\<close>

text \<open>\<open>String.prototype.includes\<close>: the token occurs somewhere in the name.\<close>

fun containsToken :: "string \<Rightarrow> string \<Rightarrow> bool" where
  "containsToken [] t = (t = [])"
| "containsToken (c # cs) t = (startsWith (c # cs) t \<or> containsToken cs t)"

text \<open>
  A result tree all of whose leaves are booleans, numbers or promises; \<open>null\<close>,
  \<open>undefined\<close> and strings are not among them.
\<close>

fun boolNumPromiseLeaves :: "jsval \<Rightarrow> bool"
  and boolNumPromiseValues :: "(string \<times> jsval) list \<Rightarrow> bool" where
  "boolNumPromiseLeaves (VBool b) = True"
| "boolNumPromiseLeaves (VNum n) = True"
| "boolNumPromiseLeaves (VPromise p) = True"
| "boolNumPromiseLeaves (VObj kvs) = boolNumPromiseValues kvs"
| "boolNumPromiseLeaves VUndefined = False"
| "boolNumPromiseLeaves VNull = False"
| "boolNumPromiseLeaves (VStr s) = False"
| "boolNumPromiseValues [] = True"
| "boolNumPromiseValues ((k, v) # kvs) = (boolNumPromiseLeaves v \<and> boolNumPromiseValues kvs)"

text \<open>
  Concrete collaborators for the examples below: a \<open>camel\<close> that lowers the first
  letter (what change-case does to a name written in Pascal or camel case with letters
  only), a \<open>gql\<close> that accepts every selection, a data operation that resolves with
  a fixed value, an asynchronous predicate that resolves to \<open>false\<close>, and an
  asynchronous predicate that awaits \<open>run()\<close> and resolves to \<open>true\<close>.
\<close>

definition exampleCamel :: "string \<Rightarrow> string" where
  "exampleCamel s =
     (case s of
        [] \<Rightarrow> []
      | c # cs \<Rightarrow>
          (case map_of (zip ''ABCDEFGHIJKLMNOPQRSTUVWXYZ'' ''abcdefghijklmnopqrstuvwxyz'') c of
             None \<Rightarrow> c # cs
           | Some l \<Rightarrow> l # cs))"

definition exampleScope :: "unit policy \<Rightarrow> unit scope" where
  "exampleScope m =
     \<lparr>authMapping = m, caller = VObj [(''role'', VStr ''USER'')], camel = exampleCamel,
      gqlParses = (\<lambda>info. True), resourceName = [], queryType = []\<rparr>"

definition resolvesWith :: "jsval \<Rightarrow> unit queryFn" where
  "resolvesWith r args info w = (Inr r, w)"

definition asyncFalse :: "jsval \<Rightarrow> authctx \<Rightarrow> unit action" where
  "asyncFalse rootArgs ctx = Done (Inr (VPromise (VBool False)))"

definition awaitsRun :: "jsval \<Rightarrow> authctx \<Rightarrow> unit action" where
  "awaitsRun rootArgs ctx =
     CallRun (\<lambda>settled. case settled of
                Inl e \<Rightarrow> Done (Inl e)
              | Inr r \<Rightarrow> Done (Inr (VPromise (VBool True))))"

text \<open>
  For the class \<open>Authorized\<close>: the permission map is a single boolean that every
  \<open>authorize\<close> call answers with, the summary is the conjunction of the boolean leaves,
  and the annotation leaves the result as it is.
\<close>

definition andOfLeaves :: "jsval \<Rightarrow> error + jsval" where
  "andOfLeaves r = traverse (VBool True) r"

definition exampleCollaborators :: "(unit, bool, unit, string) collaborators" where
  "exampleCollaborators =
     \<lparr>getInputTypes = (\<lambda>tds rt queryName key. Some ''String''),
      getResponseType = (\<lambda>tds rt queryName. Some ''Post''),
      authorize = (\<lambda>pm a w. (Inr (VObj [(''allowed'', VBool pm)]), w)),
      summarizeResult = andOfLeaves,
      annotateAuthResultWithInputTypes = (\<lambda>r inputTypes. r),
      pascal = (\<lambda>s. s),
      applyDerivedTypePermissions = (\<lambda>tds pm. pm)\<rparr>"

lemmas example_defs =
  wrapQuery_def wrapped_def run_def getAuthResolver_def createSubLevelRunFn_def
  summarizeAuthResult_def js_and_def getQueryType_def matchQueryType_def exampleScope_def
  exampleCamel_def resolvesWith_def asyncFalse_def awaitsRun_def Let_def

section \<open>Facts about classification\<close>

lemma startsWith_iff: "startsWith s t \<longleftrightarrow> (\<exists>post. s = t @ post)"
  by (induction s t rule: startsWith.induct) auto

lemma containsToken_iff: "containsToken s t \<longleftrightarrow> (\<exists>pre post. s = pre @ t @ post)"
proof (induction s)
  case Nil
  then show ?case by auto
next
  case (Cons c cs)
  show ?case
  proof
    assume "containsToken (c # cs) t"
    then consider "startsWith (c # cs) t" | "containsToken cs t" by auto
    then show "\<exists>pre post. c # cs = pre @ t @ post"
    proof cases
      case 1
      then obtain post where "c # cs = t @ post" by (auto simp: startsWith_iff)
      then have "c # cs = [] @ t @ post" by simp
      then show ?thesis by blast
    next
      case 2
      then obtain pre post where "cs = pre @ t @ post" using Cons.IH by auto
      then have "c # cs = (c # pre) @ t @ post" by simp
      then show ?thesis by blast
    qed
  next
    assume "\<exists>pre post. c # cs = pre @ t @ post"
    then obtain pre post where eq: "c # cs = pre @ t @ post" by auto
    show "containsToken (c # cs) t"
    proof (cases pre)
      case Nil
      with eq have "startsWith (c # cs) t" by (auto simp: startsWith_iff)
      then show ?thesis by simp
    next
      case (Cons p ps)
      with eq have "cs = ps @ t @ post" by simp
      then have "containsToken cs t" using Cons.IH by auto
      then show ?thesis by simp
    qed
  qed
qed

lemma matchAlternatives_None:
  "matchAlternatives alts s = None \<longleftrightarrow> (\<forall>a\<in>set alts. \<not> startsWith s a)"
  by (induction alts) auto

lemma matchAlternatives_Some:
  "matchAlternatives alts s = Some a \<Longrightarrow> a \<in> set alts \<and> startsWith s a"
  by (induction alts) (auto split: if_splits)

lemma containsToken_startsWith: "startsWith s t \<Longrightarrow> containsToken s t"
  by (cases s; cases t) auto





lemma regexExec_Some_split:
  "regexExec alts s = Some a \<Longrightarrow>
     \<exists>pre post. s = pre @ a @ post \<and> a \<in> set alts
       \<and> (\<forall>p q. pre = p @ q \<and> q \<noteq> [] \<longrightarrow> matchAlternatives alts (q @ a @ post) = None)"
proof (induction s)
  case Nil
  then have "a \<in> set alts" "startsWith [] a"
    by (auto dest: matchAlternatives_Some)
  from \<open>startsWith [] a\<close> have "a = []" by (cases a) simp_all
  then have "[] = [] @ a @ []" by simp
  with \<open>a \<in> set alts\<close> show ?case by blast
next
  case (Cons c cs)
  show ?case
  proof (cases "matchAlternatives alts (c # cs)")
    case (Some a')
    with Cons.prems have "a' = a" by simp
    with Some have "a \<in> set alts" "startsWith (c # cs) a"
      by (auto dest: matchAlternatives_Some)
    then obtain post where "c # cs = [] @ a @ post"
      by (auto simp: startsWith_iff)
    with \<open>a \<in> set alts\<close> show ?thesis by blast
  next
    case None
    with Cons.prems have "regexExec alts cs = Some a" by simp
    from Cons.IH [OF this] obtain pre post where
      eq: "cs = pre @ a @ post" and mem: "a \<in> set alts" and
      nm: "\<forall>p q. pre = p @ q \<and> q \<noteq> [] \<longrightarrow> matchAlternatives alts (q @ a @ post) = None"
      by blast
    have "\<forall>p q. c # pre = p @ q \<and> q \<noteq> [] \<longrightarrow> matchAlternatives alts (q @ a @ post) = None"
    proof (intro allI impI)
      fix p q assume pq: "c # pre = p @ q \<and> q \<noteq> []"
      show "matchAlternatives alts (q @ a @ post) = None"
      proof (cases p)
        case Nil
        with pq eq None show ?thesis by auto
      next
        case (Cons x xs)
        with pq nm show ?thesis by simp
      qed
    qed
    moreover have "c # cs = (c # pre) @ a @ post" using eq by simp
    ultimately show ?thesis using mem by blast
  qed
qed

lemma removeFirst_split:
  "\<forall>p q. pre = p @ q \<and> q \<noteq> [] \<longrightarrow> \<not> startsWith (q @ a @ post) a \<Longrightarrow>
     removeFirst a (pre @ a @ post) = pre @ post"
proof (induction pre)
  case Nil
  show ?case
  proof (cases "a @ post")
    case Nil
    then show ?thesis by simp
  next
    case (Cons c cs)
    have "startsWith (a @ post) a" by (auto simp: startsWith_iff)
    with Cons have "removeFirst a (a @ post) = drop (length a) (a @ post)"
      by simp
    then show ?thesis by simp
  qed
next
  case (Cons c pre)
  have "\<not> startsWith ((c # pre) @ a @ post) a"
    using Cons.prems by blast
  moreover have "\<forall>p q. pre = p @ q \<and> q \<noteq> [] \<longrightarrow> \<not> startsWith (q @ a @ post) a"
  proof (intro allI impI)
    fix p q assume "pre = p @ q \<and> q \<noteq> []"
    then have "c # pre = (c # p) @ q \<and> q \<noteq> []" by simp
    with Cons.prems show "\<not> startsWith (q @ a @ post) a" by blast
  qed
  ultimately show ?case using Cons.IH by simp
qed

lemma regexExec_skip:
  "\<forall>p q. pre = p @ q \<and> q \<noteq> [] \<longrightarrow> matchAlternatives alts (q @ s) = None \<Longrightarrow>
     regexExec alts (pre @ s) = regexExec alts s"
proof (induction pre)
  case Nil
  show ?case by simp
next
  case (Cons c pre)
  have "matchAlternatives alts ((c # pre) @ s) = None"
    using Cons.prems by blast
  moreover have "\<forall>p q. pre = p @ q \<and> q \<noteq> [] \<longrightarrow> matchAlternatives alts (q @ s) = None"
  proof (intro allI impI)
    fix p q assume "pre = p @ q \<and> q \<noteq> []"
    then have "c # pre = (c # p) @ q \<and> q \<noteq> []" by simp
    with Cons.prems show "matchAlternatives alts (q @ s) = None" by blast
  qed
  ultimately show ?case using Cons.IH by simp
qed

lemma no_straddle:
  assumes "t \<in> set matchQueryType" "t = q @ us" "q \<noteq> []" "us \<noteq> []"
    and "us @ r = ''updateMany'' @ post \<or> us @ r = ''deleteMany'' @ post"
  shows False
  using assms
  by (auto simp: matchQueryType_def Cons_eq_append_conv append_eq_Cons_conv)


lemma startsWith_append: "startsWith s (a @ b) \<Longrightarrow> startsWith s a"
  by (auto simp: startsWith_iff)

lemma matchAlternatives_never_Many:
  "matchAlternatives matchQueryType s \<noteq> Some ''updateMany''
   \<and> matchAlternatives matchQueryType s \<noteq> Some ''deleteMany''"
proof -
  have u: "startsWith s ''updateMany'' \<Longrightarrow> startsWith s ''update''"
    using startsWith_append [of s "''update''" "''Many''"] by simp
  have d: "startsWith s ''deleteMany'' \<Longrightarrow> startsWith s ''delete''"
    using startsWith_append [of s "''delete''" "''Many''"] by simp
  show ?thesis using u d by (auto simp: matchQueryType_def)
qed

lemma regexExec_matchAlternatives:
  "regexExec alts s = Some a \<Longrightarrow> \<exists>s'. matchAlternatives alts s' = Some a"
  by (induction s) (auto split: option.splits)

lemma getQueryType_Inr:
  "getQueryType name = Inr t \<longleftrightarrow> regexExec matchQueryType name = Some t \<and> t \<noteq> []"
  by (auto simp: getQueryType_def split: option.splits)

lemma matchQueryType_nonempty: "t \<in> set matchQueryType \<Longrightarrow> t \<noteq> []"
  by (auto simp: matchQueryType_def)

lemma many_is_short:
  assumes free: "\<forall>t\<in>set matchQueryType. \<not> containsToken pre t"
    and m: "m = ''updateMany'' \<or> m = ''deleteMany''"
  shows "regexExec matchQueryType (pre @ m @ post) = regexExec matchQueryType (m @ post)"
proof (rule regexExec_skip, intro allI impI)
  fix p q assume pq: "pre = p @ q \<and> q \<noteq> []"
  show "matchAlternatives matchQueryType (q @ m @ post) = None"
  proof (rule ccontr)
    assume "matchAlternatives matchQueryType (q @ m @ post) \<noteq> None"
    then obtain t where t: "t \<in> set matchQueryType" "startsWith (q @ m @ post) t"
      by (auto simp: matchAlternatives_None)
    then obtain r where eq: "q @ m @ post = t @ r" by (auto simp: startsWith_iff)
    from eq obtain us where
      us: "q = t @ us \<and> us @ (m @ post) = r \<or> q @ us = t \<and> m @ post = us @ r"
      using append_eq_append_conv2 [of q "m @ post" t r] by blast
    then consider us where "q = t @ us" | us where "q @ us = t" "us \<noteq> []" "m @ post = us @ r"
      by (cases "us = []") auto
    then show False
    proof cases
      case 1
      with pq have "pre = p @ t @ us" by simp
      then have "containsToken pre t" by (auto simp: containsToken_iff)
      with free t show False by blast
    next
      case 2
      with pq m no_straddle [OF t(1), of q us r post] show False by auto
    qed
  qed
qed


section \<open>Claims about classification\<close>



text \<open>
  C10, as amended. The regex engine takes the leftmost position of the name where an
  alternative matches and, there, the first alternative in the order of the source.
  So \<open>getQueryType\<close> never returns updateMany or deleteMany; whatever it returns
  occurs in the name with no token before it, the resource name is \<open>camel\<close> of the
  name with that one occurrence taken out, and a name that contains updateMany
  (deleteMany) with no token before it is classified as update (delete).
\<close>

theorem getQueryType_leftmost:
  "getQueryType name \<noteq> Inr ''updateMany'' \<and> getQueryType name \<noteq> Inr ''deleteMany''
   \<and> (getQueryType name = Inr t \<longrightarrow>
        (\<exists>pre post. name = pre @ t @ post
           \<and> (\<forall>u\<in>set matchQueryType. \<not> containsToken pre u)
           \<and> removeFirst t name = pre @ post
           \<and> wrapQuery sc fn False name =
               Inr (wrapped (sc\<lparr>resourceName := camel sc (pre @ post), queryType := t\<rparr>) fn)))
   \<and> ((\<forall>u\<in>set matchQueryType. \<not> containsToken pre' u) \<longrightarrow>
        getQueryType (pre' @ ''updateMany'' @ post') = Inr ''update''
      \<and> getQueryType (pre' @ ''deleteMany'' @ post') = Inr ''delete'')"
proof (intro conjI impI)
  show "getQueryType name \<noteq> Inr ''updateMany''"
    using matchAlternatives_never_Many
    by (auto simp: getQueryType_Inr dest!: regexExec_matchAlternatives)
  show "getQueryType name \<noteq> Inr ''deleteMany''"
    using matchAlternatives_never_Many
    by (auto simp: getQueryType_Inr dest!: regexExec_matchAlternatives)
next
  assume g: "getQueryType name = Inr t"
  then have "regexExec matchQueryType name = Some t" by (simp add: getQueryType_Inr)
  from regexExec_Some_split [OF this] obtain pre post where
    eq: "name = pre @ t @ post" and mem: "t \<in> set matchQueryType" and
    nm: "\<forall>p q. pre = p @ q \<and> q \<noteq> [] \<longrightarrow>
           matchAlternatives matchQueryType (q @ t @ post) = None"
    by blast
  have free: "\<forall>u\<in>set matchQueryType. \<not> containsToken pre u"
  proof (intro ballI notI)
    fix u assume u: "u \<in> set matchQueryType" and "containsToken pre u"
    then obtain p r where pre: "pre = p @ u @ r" by (auto simp: containsToken_iff)
    have "u @ r \<noteq> []" using matchQueryType_nonempty [OF u] by simp
    with pre nm have "matchAlternatives matchQueryType ((u @ r) @ t @ post) = None"
      by blast
    moreover have "startsWith ((u @ r) @ t @ post) u" by (auto simp: startsWith_iff)
    ultimately show False using u by (auto simp: matchAlternatives_None)
  qed
  have "\<forall>p q. pre = p @ q \<and> q \<noteq> [] \<longrightarrow> \<not> startsWith (q @ t @ post) t"
    using nm mem by (auto simp: matchAlternatives_None)
  then have rf: "removeFirst t name = pre @ post"
    unfolding eq by (rule removeFirst_split)
  have "wrapQuery sc fn False name =
          Inr (wrapped (sc\<lparr>resourceName := camel sc (pre @ post), queryType := t\<rparr>) fn)"
    using g rf by (simp add: wrapQuery_def)
  with eq free rf show "\<exists>pre post. name = pre @ t @ post
           \<and> (\<forall>u\<in>set matchQueryType. \<not> containsToken pre u)
           \<and> removeFirst t name = pre @ post
           \<and> wrapQuery sc fn False name =
               Inr (wrapped (sc\<lparr>resourceName := camel sc (pre @ post), queryType := t\<rparr>) fn)"
    by blast
next
  assume free: "\<forall>u\<in>set matchQueryType. \<not> containsToken pre' u"
  have "regexExec matchQueryType (''updateMany'' @ post') = Some ''update''"
    by (simp add: matchQueryType_def)
  with many_is_short [OF free, of "''updateMany''" post']
  show "getQueryType (pre' @ ''updateMany'' @ post') = Inr ''update''"
    by (simp add: getQueryType_Inr)
next
  assume free: "\<forall>u\<in>set matchQueryType. \<not> containsToken pre' u"
  have "regexExec matchQueryType (''deleteMany'' @ post') = Some ''delete''"
    by (simp add: matchQueryType_def)
  with many_is_short [OF free, of "''deleteMany''" post']
  show "getQueryType (pre' @ ''deleteMany'' @ post') = Inr ''delete''"
    by (simp add: getQueryType_Inr)
qed

text \<open>The names \<open>updateManyPosts\<close> and \<open>deleteManyPosts\<close>.\<close>

theorem getQueryType_leftmost_witness:
  "getQueryType ''updateManyPosts'' = Inr ''update''
   \<and> getQueryType ''deleteManyPosts'' = Inr ''delete''
   \<and> wrapQuery (exampleScope (PObj [])) (resolvesWith VNull) False ''updateManyPosts''
       = Inr (wrapped
                ((exampleScope (PObj []))
                   \<lparr>resourceName := ''manyPosts'', queryType := ''update''\<rparr>)
                (resolvesWith VNull))"
proof -
  have h: "\<forall>u\<in>set matchQueryType. \<not> containsToken [] u"
    by (simp add: matchQueryType_def)
  have g: "getQueryType ''updateManyPosts'' = Inr ''update''"
    by (simp add: getQueryType_def matchQueryType_def)
  note fact = getQueryType_leftmost
         [where name = "''updateManyPosts''" and t = "''update''"
            and sc = "exampleScope (PObj [])" and fn = "resolvesWith VNull"
            and pre' = "[]" and post' = "''Posts''"]
  from fact g obtain pre post where
    rf: "removeFirst ''update'' ''updateManyPosts'' = pre @ post" and
    w: "wrapQuery (exampleScope (PObj [])) (resolvesWith VNull) False ''updateManyPosts''
          = Inr (wrapped
                   ((exampleScope (PObj []))
                      \<lparr>resourceName := camel (exampleScope (PObj [])) (pre @ post),
                       queryType := ''update''\<rparr>)
                   (resolvesWith VNull))"
    by blast
  from rf have "pre @ post = ''ManyPosts''" by simp
  then have "camel (exampleScope (PObj [])) (pre @ post) = ''manyPosts''"
    by (simp add: exampleScope_def exampleCamel_def)
  with w have "wrapQuery (exampleScope (PObj [])) (resolvesWith VNull) False ''updateManyPosts''
       = Inr (wrapped
                ((exampleScope (PObj []))
                   \<lparr>resourceName := ''manyPosts'', queryType := ''update''\<rparr>)
                (resolvesWith VNull))"
    by simp
  moreover from fact h have "getQueryType ''updateManyPosts'' = Inr ''update''
      \<and> getQueryType ''deleteManyPosts'' = Inr ''delete''"
    by simp
  ultimately show ?thesis by simp
qed

text \<open>
  The claim as it was written fails on a name that contains updateMany after another
  token: \<open>createBulk_updateMany\<close> is classified as create.
\<close>

theorem updateMany_not_always_update:
  "containsToken ''createBulk_updateMany'' ''updateMany''
   \<and> getQueryType ''createBulk_updateMany'' = Inr ''create''"
  by (simp add: getQueryType_def matchQueryType_def)

section \<open>Claims about the wrapper of withAuthorization.js\<close>

lemma getAuthResolver_absent:
  "policyGet (authMapping sc) (resourceName sc # queryType sc # queryPath) = None \<Longrightarrow>
     getAuthResolver sc queryPath = PBool False"
  by (simp add: getAuthResolver_def)

lemma processPath_boolean:
  "processPath sc rootArgs runFn info ctx val (PBool b) absoluteKey st = (Inr (VBool b), st)"
  by simp

lemma processPath_delegate:
  "processPath sc rootArgs runFn info ctx val (PStr other) absoluteKey st =
     processAuth sc (jget rootArgs absoluteKey) (createSubLevelRunFn absoluteKey runFn)
       info ctx st"
  by (simp add: Let_def)

lemma summarizeAuthResult_object: "summarizeAuthResult (VObj kvs) = Inr (VBool True)"
  by (simp add: summarizeAuthResult_def js_and_def)

lemma run_cached:
  "truthy (runResult st) \<Longrightarrow> run qf args info st = (Inr (runResult st), st)"
  by (simp add: run_def)

lemma run_falsy_calls:
  "\<not> truthy (runResult st) \<Longrightarrow>
     calls (snd (run qf args info st)) = calls st @ [(args, info)]"
  by (simp add: run_def split: prod.splits sum.splits)

text \<open>
  Whatever \<open>runResult\<close> holds when it is truthy was stored by \<open>run\<close>, which stores
  what \<open>queryFunction\<close> resolved with. The next lemmas carry this through a projected
  run handle, a predicate and the whole of \<open>processAuth\<close>.
\<close>

lemma run_keeps:
  assumes "truthy (runResult st) \<longrightarrow> (\<exists>w1 w2. qf args info w1 = (Inr (runResult st), w2))"
  shows "truthy (runResult (snd (run qf args info st))) \<longrightarrow>
           (\<exists>w1 w2. qf args info w1 = (Inr (runResult (snd (run qf args info st))), w2))"
proof (cases "truthy (runResult st)")
  case True
  with assms show ?thesis by (simp add: run_def)
next
  case False
  obtain res w' where q: "qf args info (world st) = (res, w')" by (cases "qf args info (world st)")
  show ?thesis
  proof (cases res)
    case (Inl e)
    with False q show ?thesis by (simp add: run_def)
  next
    case (Inr r)
    with False q have "runResult (snd (run qf args info st)) = r" by (simp add: run_def)
    with q Inr show ?thesis by auto
  qed
qed

lemma createSubLevelRunFn_keeps:
  assumes "\<forall>s. Q (runResult s) \<longrightarrow> Q (runResult (snd (h s)))"
  shows "\<forall>s. Q (runResult s) \<longrightarrow> Q (runResult (snd (createSubLevelRunFn p h s)))"
  using assms
  by (auto simp: createSubLevelRunFn_def split: prod.splits sum.splits)

lemma perform_keeps:
  assumes "\<forall>s. Q (runResult s) \<longrightarrow> Q (runResult (snd (h s)))"
  shows "Q (runResult st) \<Longrightarrow> Q (runResult (snd (perform h a st)))"
proof (induction a arbitrary: st)
  case (Done r)
  then show ?case by simp
next
  case (CallRun k)
  obtain r st' where hs: "h st = (r, st')" by (cases "h st")
  with assms CallRun.prems have "Q (runResult st')" by (metis snd_conv)
  with CallRun.IH [OF rangeI, of st' r] hs show ?case by simp
next
  case (ReadWorld k)
  then show ?case by (simp add: rangeI)
next
  case (WriteWorld f a)
  then show ?case by simp
qed

lemma process_keeps:
  fixes Q :: "jsval \<Rightarrow> bool"
  shows "(\<forall>s. Q (runResult s) \<longrightarrow> Q (runResult (snd (h s)))) \<Longrightarrow> Q (runResult st) \<Longrightarrow>
           Q (runResult (snd (processAuth sc a h info ctx st)))"
    and "(\<forall>s. Q (runResult s) \<longrightarrow> Q (runResult (snd (h s)))) \<Longrightarrow> Q (runResult st) \<Longrightarrow>
           Q (runResult (snd (processLevel sc a h info ctx args lk st)))"
    and "(\<forall>s. Q (runResult s) \<longrightarrow> Q (runResult (snd (h s)))) \<Longrightarrow> Q (runResult st) \<Longrightarrow>
           Q (runResult (snd (processValues sc a h info ctx kvs lk st)))"
    and "(\<forall>s. Q (runResult s) \<longrightarrow> Q (runResult (snd (h s)))) \<Longrightarrow> Q (runResult st) \<Longrightarrow>
           Q (runResult (snd (processPath sc a h info ctx v r p st)))"
proof (induction sc a h info ctx st and sc a h info ctx args lk st
         and sc a h info ctx kvs lk st and sc a h info ctx v r p st
       rule: processAuth_processLevel_processValues_processPath.induct)
  case (1 sc rootArgs run info ctx st)
  then show ?case by (cases "gqlParses sc info") simp_all
next
  case (2 sc rootArgs run info ctx args levelKey st)
  then show ?case by (auto split: prod.splits sum.splits)
next
  case (3 sc rootArgs run info ctx levelKey st)
  then show ?case by simp
next
  case (4 sc rootArgs run info ctx key val rest levelKey st)
  show ?case using 4 by (auto simp: Let_def split: prod.splits sum.splits)
next
  case (5 sc rootArgs run info ctx val authResolver absoluteKey st)
  show ?case
  proof (cases authResolver)
    case (PBool b)
    with 5 show ?thesis by simp
  next
    case (PStr other)
    with "5.IH"(1) [OF PStr refl refl createSubLevelRunFn_keeps [OF "5.prems"(1)] "5.prems"(2)]
    show ?thesis by (simp add: Let_def)
  next
    case (PObj m)
    with "5.IH"(2) [OF PObj "5.prems"] show ?thesis by simp
  next
    case (PFun f)
    with perform_keeps [OF "5.prems"] show ?thesis by simp
  next
    case POther
    with 5 show ?thesis by simp
  qed
qed

lemma wrapped_outcome_is_response:
  assumes "processAuth sc args (run qf args info) info
             \<lparr>graphqlContext = ctx, user = caller sc\<rparr>
             \<lparr>world = w, calls = [], runResult = VUndefined\<rparr> = (Inr tree, st1)"
    and "summarizeAuthResult (await tree) = Inr verdict"
    and "truthy verdict"
  shows "\<exists>w1 w2. qf args info w1 = (fst (wrapped sc qf args info ctx w), w2)"
proof -
  let ?Q = "\<lambda>r. truthy r \<longrightarrow> (\<exists>w1 w2. qf args info w1 = (Inr r, w2))"
  have keeps: "\<forall>s. ?Q (runResult s) \<longrightarrow> ?Q (runResult (snd (run qf args info s)))"
    using run_keeps [of _ qf args info] by blast
  have "?Q (runResult (snd (processAuth sc args (run qf args info) info
             \<lparr>graphqlContext = ctx, user = caller sc\<rparr>
             \<lparr>world = w, calls = [], runResult = VUndefined\<rparr>)))"
    by (rule process_keeps(1) [where Q = ?Q, OF keeps]) simp
  with assms(1) have q1: "?Q (runResult st1)" by simp
  have w: "wrapped sc qf args info ctx w = run qf args info st1"
    using assms by (simp add: wrapped_def Let_def)
  show ?thesis
  proof (cases "truthy (runResult st1)")
    case True
    with q1 obtain w1 w2 where "qf args info w1 = (Inr (runResult st1), w2)" by blast
    with True w show ?thesis by (auto simp: run_def)
  next
    case False
    obtain res w' where q: "qf args info (world st1) = (res, w')"
      by (cases "qf args info (world st1)")
    with False w have "fst (wrapped sc qf args info ctx w) = res"
      by (cases res) (simp_all add: run_def)
    with q show ?thesis by auto
  qed
qed

text \<open>
  C1. The claim: a path with no entry in the mapping resolves to \<open>false\<close>, so the
  authorization summarizes to \<open>false\<close>. The code at an empty mapping and the mutation
  \<open>createPost\<close> with the argument \<open>title\<close>: the path resolves to \<open>false\<close>, and
  the result tree \<open>{title: false}\<close> is summarized to \<open>true\<close>, because
  \<open>summarizeAuthResult\<close> hands the tree to \<open>traverse\<close> as \<open>sum\<close> and \<open>true\<close> as
  \<open>level\<close>. The operation runs and its result is returned.
\<close>

theorem missing_entry_is_authorized:
  "getAuthResolver
     ((exampleScope (PObj [])) \<lparr>resourceName := ''post'', queryType := ''create''\<rparr>)
     [''title''] = PBool False
   \<and> fst (processAuth
            ((exampleScope (PObj [])) \<lparr>resourceName := ''post'', queryType := ''create''\<rparr>)
            (VObj [(''title'', VStr ''x'')]) runFn ''{ id }'' ctx st)
       = Inr (VObj [(''title'', VBool False)])
   \<and> summarizeAuthResult (VObj [(''title'', VBool False)]) = Inr (VBool True)
   \<and> (case wrapQuery (exampleScope (PObj [])) (resolvesWith (VObj [(''id'', VNum 1)]))
              False ''createPost'' of
         Inl e \<Rightarrow> False
       | Inr f \<Rightarrow>
           f (VObj [(''title'', VStr ''x'')]) ''{ id }'' VNull ()
             = (Inr (VObj [(''id'', VNum 1)]),
                \<lparr>world = (), calls = [(VObj [(''title'', VStr ''x'')], ''{ id }'')],
                 runResult = VObj [(''id'', VNum 1)]\<rparr>))"
  by (simp add: example_defs)

text \<open>
  C3. The claim: a string node delegates to the policy of the resource it names. The
  code at the mapping \<open>{post: {create: {author: 'user'}}, user: {create: {name:
  true}}}\<close> and the arguments \<open>{author: {name: 'ann'}}\<close> of \<open>createPost\<close>: the
  sub-arguments at \<open>author\<close> are authorized again under \<open>post.create\<close>, where
  \<open>name\<close> has no entry, so the result is \<open>{author: {name: false}}\<close>; under the
  policy of \<open>user\<close> the same sub-arguments give \<open>{name: true}\<close>. The string of the
  node is never read.
\<close>

theorem delegate_stays_on_own_resource:
  "fst (processAuth
          ((exampleScope
              (PObj [(''post'', PObj [(''create'', PObj [(''author'', PStr ''user'')])]),
                     (''user'', PObj [(''create'', PObj [(''name'', PBool True)])])]))
             \<lparr>resourceName := ''post'', queryType := ''create''\<rparr>)
          (VObj [(''author'', VObj [(''name'', VStr ''ann'')])]) runFn ''{ id }'' ctx st)
     = Inr (VObj [(''author'', VObj [(''name'', VBool False)])])
   \<and> fst (processAuth
          ((exampleScope
              (PObj [(''post'', PObj [(''create'', PObj [(''author'', PStr ''user'')])]),
                     (''user'', PObj [(''create'', PObj [(''name'', PBool True)])])]))
             \<lparr>resourceName := ''user'', queryType := ''create''\<rparr>)
          (VObj [(''name'', VStr ''ann'')]) runFn ''{ id }'' ctx st)
     = Inr (VObj [(''name'', VBool True)])"
  by (simp add: example_defs)

text \<open>
  C4. The claim: however often the run handle is invoked, the operation runs once.
  The code at the read \<open>post\<close> whose operation resolves with \<open>null\<close>, under a
  predicate that awaits \<open>run()\<close>: the predicate's call runs the operation, the falsy
  result does not pass the test \<open>!runResult\<close>, and the final \<open>run()\<close> of
  \<open>wrapped\<close> runs the operation a second time.
\<close>

theorem run_invokes_operation_twice:
  "(case wrapQuery
           (exampleScope
              (PObj [(''post'', PObj [(''get'', PObj [(''where'', PFun awaitsRun)])])]))
           (resolvesWith VNull) True ''post'' of
      Inl e \<Rightarrow> False
    | Inr f \<Rightarrow>
        f (VObj [(''where'', VObj [(''id'', VNum 7)])]) ''{ id }'' VNull ()
          = (Inr VNull,
             \<lparr>world = (),
              calls = [(VObj [(''where'', VObj [(''id'', VNum 7)])], ''{ id }''),
                       (VObj [(''where'', VObj [(''id'', VNum 7)])], ''{ id }'')],
              runResult = VNull\<rparr>))"
  by (simp add: example_defs)

text \<open>
  C5. The claim: a predicate that resolves to \<open>false\<close> makes the summary \<open>false\<close>.
  The code at the mapping \<open>{post: {create: {title: async () => false}}}\<close> and the
  mutation \<open>createPost\<close>: the promise is stored in the result tree as it is, neither
  the \<open>await\<close> on the tree nor the traversal looks into it, and the request is
  authorized.
\<close>

theorem unsettled_promise_is_authorized:
  "fst (processAuth
          ((exampleScope
              (PObj [(''post'', PObj [(''create'', PObj [(''title'', PFun asyncFalse)])])]))
             \<lparr>resourceName := ''post'', queryType := ''create''\<rparr>)
          (VObj [(''title'', VStr ''x'')]) runFn ''{ id }'' ctx st)
     = Inr (VObj [(''title'', VPromise (VBool False))])
   \<and> traverse (VBool True) (VObj [(''title'', VPromise (VBool False))]) = Inr (VBool True)
   \<and> (case wrapQuery
              (exampleScope
                 (PObj [(''post'', PObj [(''create'', PObj [(''title'', PFun asyncFalse)])])]))
              (resolvesWith (VObj [(''id'', VNum 1)])) False ''createPost'' of
         Inl e \<Rightarrow> False
       | Inr f \<Rightarrow>
           fst (f (VObj [(''title'', VStr ''x'')]) ''{ id }'' VNull ())
             = Inr (VObj [(''id'', VNum 1)]))"
  by (simp add: example_defs)

lemma traverse_tolerates:
  "boolNumPromiseLeaves t \<Longrightarrow> \<exists>b'. traverse (VBool b) t = Inr (VBool b')"
  "boolNumPromiseValues kvs \<Longrightarrow> \<exists>b'. traverseValues (VBool b) kvs = Inr (VBool b')"
proof (induction t and kvs arbitrary: b and b rule: boolNumPromiseLeaves_boolNumPromiseValues.induct)
  case (9 k v kvs)
  then obtain b1 where "traverse (VBool b) v = Inr (VBool b1)" by fastforce
  with 9 show ?case by simp
qed (auto simp: js_and_def)

text \<open>
  C6, as amended. A leaf that is a number or a promise is not a contract violation for
  the summary: a result tree all of whose leaves are booleans, numbers or promises is
  summarized to a boolean verdict and no error is raised. This does not hang on the
  order in which \<open>summarizeAuthResult\<close> hands its arguments to \<open>traverse\<close>: the
  traversal of the tree from \<open>true\<close> gives a boolean verdict as well. Nothing is said
  about trees with other leaves.
\<close>

theorem number_and_promise_leaves_pass:
  "boolNumPromiseValues kvs \<Longrightarrow>
     (\<exists>b. summarizeAuthResult (VObj kvs) = Inr (VBool b))
   \<and> (\<exists>b. traverse (VBool True) (VObj kvs) = Inr (VBool b))"
  using traverse_tolerates(2) [of kvs True]
  by (auto simp: summarizeAuthResult_def js_and_def)

text \<open>The tree \<open>{title: true, views: 5, author: {email: Promise(false)}}\<close>.\<close>

theorem number_and_promise_leaves_pass_witness:
  "(\<exists>b. summarizeAuthResult
           (VObj [(''title'', VBool True), (''views'', VNum 5),
                  (''author'', VObj [(''email'', VPromise (VBool False))])])
         = Inr (VBool b))
   \<and> (\<exists>b. traverse (VBool True)
           (VObj [(''title'', VBool True), (''views'', VNum 5),
                  (''author'', VObj [(''email'', VPromise (VBool False))])])
         = Inr (VBool b))"
  using number_and_promise_leaves_pass
          [of "[(''title'', VBool True), (''views'', VNum 5),
                (''author'', VObj [(''email'', VPromise (VBool False))])]"]
  by simp

text \<open>
  The claim as it was written fails on the tree \<open>{title: 5}\<close>, whose leaf is a
  number: the summary is a boolean verdict and no error.
\<close>

theorem number_leaf_yields_verdict:
  "summarizeAuthResult (VObj [(''title'', VNum 5)]) = Inr (VBool True)"
  by (simp add: summarizeAuthResult_def js_and_def)

section \<open>Claims about the pipeline of class Authorized\<close>

lemma inputPhase_denied:
  assumes "validateInputs c pm inputTypes cx rd (ownEntries ins) w = (Inr kvs, w1)"
    and "summarizeResult c (VObj kvs) = Inr verdict"
    and "\<not> truthy verdict"
  shows "inputPhase c pm inputTypes cx rd ins w =
           (Some (AuthorizationError
                    (annotateAuthResultWithInputTypes c (VObj kvs) inputTypes)), w1)"
  using assms by (simp add: inputPhase_def)

lemma wrapQuery_input_failure:
  assumes "inputPhase c pm (getInputTypes c tds Mutation queryName)
             \<lparr>ctxUser = usr, ctxGraphql = ctx\<rparr>
             \<lparr>rootFieldName = queryName, rootTypeName = pascal c ''Mutation'', inputs = ins\<rparr>
             ins (dataLayer st) = (Some e, w1)"
  shows "Authorized_wrapQuery c tds pm usr queryFunction Mutation queryName ins info ctx st
           = (Inl e, st\<lparr>dataLayer := w1\<rparr>)"
  using assms by (simp add: Authorized_wrapQuery_def)

lemma wrapQuery_result_is_response:
  assumes "Authorized_wrapQuery c tds pm usr queryFunction rootType queryName ins info ctx st
             = (Inr payload, st')"
  shows "\<exists>w1 w2. queryFunction ins info w1 = (Inr payload, w2)
           \<and> invocations st' = invocations st @ [(ins, info)]"
  using assms
  by (auto simp: Authorized_wrapQuery_def Let_def
           split: if_splits prod.splits option.splits sum.splits)

lemma wrapQuery_passes:
  assumes "(if rootType = Query then (None, dataLayer st)
            else inputPhase c pm (getInputTypes c tds rootType queryName)
                   \<lparr>ctxUser = usr, ctxGraphql = ctx\<rparr>
                   \<lparr>rootFieldName = queryName,
                    rootTypeName = pascal c (rootTypeString rootType), inputs = ins\<rparr>
                   ins (dataLayer st)) = (None, w1)"
    and "queryFunction ins info w1 = (Inr queryResponse, w2)"
    and "validateResponse c pm (getResponseType c tds rootType queryName)
           \<lparr>ctxUser = usr, ctxGraphql = ctx\<rparr>
           \<lparr>rootFieldName = queryName,
            rootTypeName = pascal c (rootTypeString rootType), inputs = ins\<rparr>
           queryResponse w2 = (Inr responseValidationResult, w3)"
    and "summarizeResult c responseValidationResult = Inr verdict"
    and "truthy verdict"
  shows "Authorized_wrapQuery c tds pm usr queryFunction rootType queryName ins info ctx st
           = (Inr queryResponse,
              \<lparr>dataLayer = w3, invocations = invocations st @ [(ins, info)]\<rparr>)"
  using assms by (cases rootType) (simp_all add: Authorized_wrapQuery_def)

lemma forUser_cached:
  "cache this usr = Some api \<Longrightarrow> forUser c usr this = (api, this)"
  by (simp add: forUser_def)

text \<open>
  C2. A mutation whose input validation is summarized to a falsy verdict: the wrapped
  function throws the authorization error that carries the annotated validation
  result, and the log of calls to the data operation is what it was before the request,
  so the operation was not invoked.
\<close>

theorem write_phase_short_circuit:
  assumes "validateInputs c pm (getInputTypes c tds Mutation queryName)
             \<lparr>ctxUser = usr, ctxGraphql = ctx\<rparr>
             \<lparr>rootFieldName = queryName, rootTypeName = pascal c ''Mutation'', inputs = ins\<rparr>
             (ownEntries ins) (dataLayer st) = (Inr kvs, w1)"
    and "summarizeResult c (VObj kvs) = Inr verdict"
    and "\<not> truthy verdict"
  shows "Authorized_wrapQuery c tds pm usr queryFunction Mutation queryName ins info ctx st
           = (Inl (AuthorizationError
                    (annotateAuthResultWithInputTypes c (VObj kvs)
                       (getInputTypes c tds Mutation queryName))),
              \<lparr>dataLayer = w1, invocations = invocations st\<rparr>)"
  using wrapQuery_input_failure [OF inputPhase_denied [OF assms]] by simp

text \<open>
  The mutation \<open>createPost\<close> under a permission map that denies everything, from an
  empty log.
\<close>

theorem write_phase_short_circuit_witness:
  "Authorized_wrapQuery exampleCollaborators () False ''ann''
     (resolvesWith (VObj [(''id'', VNum 1)])) Mutation ''createPost''
     (VObj [(''title'', VStr ''x'')]) ''{ id }'' VNull \<lparr>dataLayer = (), invocations = []\<rparr>
   = (Inl (AuthorizationError (VObj [(''title'', VObj [(''allowed'', VBool False)])])),
      \<lparr>dataLayer = (), invocations = []\<rparr>)"
  using write_phase_short_circuit
          [where c = exampleCollaborators and pm = False and tds = "()" and usr = "''ann''"
             and queryFunction = "resolvesWith (VObj [(''id'', VNum 1)])"
             and queryName = "''createPost''" and ins = "VObj [(''title'', VStr ''x'')]"
             and info = "''{ id }''" and ctx = VNull
             and st = "\<lparr>dataLayer = (), invocations = []\<rparr>"
             and kvs = "[(''title'', VObj [(''allowed'', VBool False)])]" and ?w1.0 = "()"
             and verdict = "VBool False"]
  by (simp add: exampleCollaborators_def andOfLeaves_def js_and_def)

text \<open>
  C7. A request whose validations pass gets the operation's response as it is. For
  the wrapped function of class \<open>Authorized\<close>: when the input validation passes (or
  is skipped, for a read), the operation resolves with a response and the response
  validation is summarized to a truthy verdict, that response is returned after one
  call to the operation. For \<open>wrapped\<close> of withAuthorization.js: when
  \<open>processAuth\<close> returns a tree and its summary is truthy, the outcome of the request
  is an outcome of \<open>queryFunction\<close> on the request's arguments and selection.
\<close>

theorem response_returned_unchanged:
  "((if rootType = Query then (None, dataLayer st)
     else inputPhase c pm (getInputTypes c tds rootType queryName)
            \<lparr>ctxUser = usr, ctxGraphql = ctx\<rparr>
            \<lparr>rootFieldName = queryName,
             rootTypeName = pascal c (rootTypeString rootType), inputs = ins\<rparr>
            ins (dataLayer st)) = (None, w1)
    \<and> queryFunction ins info w1 = (Inr queryResponse, w2)
    \<and> validateResponse c pm (getResponseType c tds rootType queryName)
          \<lparr>ctxUser = usr, ctxGraphql = ctx\<rparr>
          \<lparr>rootFieldName = queryName,
           rootTypeName = pascal c (rootTypeString rootType), inputs = ins\<rparr>
          queryResponse w2 = (Inr responseValidationResult, w3)
    \<and> summarizeResult c responseValidationResult = Inr verdict
    \<and> truthy verdict
    \<longrightarrow> Authorized_wrapQuery c tds pm usr queryFunction rootType queryName ins info ctx st
          = (Inr queryResponse,
             \<lparr>dataLayer = w3, invocations = invocations st @ [(ins, info)]\<rparr>))
   \<and> (processAuth sc args (run qf args info) info
          \<lparr>graphqlContext = gctx, user = caller sc\<rparr>
          \<lparr>world = w, calls = [], runResult = VUndefined\<rparr> = (Inr tree, st1)
        \<and> summarizeAuthResult (await tree) = Inr isAuthorized
        \<and> truthy isAuthorized
        \<longrightarrow> (\<exists>wa wb. qf args info wa = (fst (wrapped sc qf args info gctx w), wb)))"
  using wrapQuery_passes [of rootType st c pm tds queryName usr ctx ins w1 queryFunction info
                             queryResponse w2 responseValidationResult w3 verdict]
        wrapped_outcome_is_response [of sc args qf info gctx w tree st1 isAuthorized]
  by blast

text \<open>
  The mutation \<open>createPost\<close> under a permission map that allows everything, and under
  the mapping \<open>{post: {create: {title: true}}}\<close>.
\<close>

theorem response_returned_unchanged_witness:
  "Authorized_wrapQuery exampleCollaborators () True ''ann''
     (resolvesWith (VObj [(''id'', VNum 1)])) Mutation ''createPost''
     (VObj [(''title'', VStr ''x'')]) ''{ id }'' VNull \<lparr>dataLayer = (), invocations = []\<rparr>
   = (Inr (VObj [(''id'', VNum 1)]),
      \<lparr>dataLayer = (), invocations = [(VObj [(''title'', VStr ''x'')], ''{ id }'')]\<rparr>)
   \<and> fst (wrapped
            ((exampleScope (PObj [(''post'', PObj [(''create'', PObj [(''title'', PBool True)])])]))
               \<lparr>resourceName := ''post'', queryType := ''create''\<rparr>)
            (resolvesWith (VObj [(''id'', VNum 1)]))
            (VObj [(''title'', VStr ''x'')]) ''{ id }'' VNull ())
       = Inr (VObj [(''id'', VNum 1)])"
  using response_returned_unchanged
          [where c = exampleCollaborators and pm = True and tds = "()" and usr = "''ann''"
             and queryFunction = "resolvesWith (VObj [(''id'', VNum 1)])"
             and rootType = Mutation
             and queryName = "''createPost''" and ins = "VObj [(''title'', VStr ''x'')]"
             and info = "''{ id }''" and ctx = VNull
             and st = "\<lparr>dataLayer = (), invocations = []\<rparr>"
             and ?w1.0 = "()" and ?w2.0 = "()" and ?w3.0 = "()"
             and queryResponse = "VObj [(''id'', VNum 1)]"
             and responseValidationResult = "VObj [(''allowed'', VBool True)]"
             and verdict = "VBool True"
             and sc = "(exampleScope
                          (PObj [(''post'', PObj [(''create'', PObj [(''title'', PBool True)])])]))
                        \<lparr>resourceName := ''post'', queryType := ''create''\<rparr>"
             and qf = "resolvesWith (VObj [(''id'', VNum 1)])"
             and args = "VObj [(''title'', VStr ''x'')]" and gctx = VNull and w = "()"
             and tree = "VObj [(''title'', VBool True)]"
             and ?st1.0 = "\<lparr>world = (), calls = [], runResult = VUndefined\<rparr>"
             and isAuthorized = "VBool True"]
  by (simp add: exampleCollaborators_def andOfLeaves_def js_and_def inputPhase_def
        validateResponse_def resolvesWith_def exampleScope_def getAuthResolver_def
        summarizeAuthResult_def)

text \<open>
  C8. After \<open>setPermissionMap\<close> the cache of \<open>forUser\<close> is empty, so \<open>forUser\<close>
  builds the user's operations anew for every user, cached before or not: the
  authorizer is made from the new permission map (with the derived permissions applied
  unless the option is switched off), and a call of a wrapped operation is authorized
  against it.
\<close>

theorem setPermissionMap_invalidates:
  "cache (setPermissionMap pm' this) = Map.empty
   \<and> fst (forUser c usr (setPermissionMap pm' this)) =
       \<lparr>apiUser = usr,
        apiPermissionMap =
          (case autoGenerateDerivedTypePermissions this of
             Some False \<Rightarrow> pm'
           | _ \<Rightarrow> applyDerivedTypePermissions c (typeDefs this) pm')\<rparr>
   \<and> callWrapped c (snd (forUser c usr (setPermissionMap pm' this)))
        (fst (forUser c usr (setPermissionMap pm' this))) queryFunction rootType queryName =
       Authorized_wrapQuery c (typeDefs this)
         (case autoGenerateDerivedTypePermissions this of
             Some False \<Rightarrow> pm'
           | _ \<Rightarrow> applyDerivedTypePermissions c (typeDefs this) pm') usr
         queryFunction rootType queryName"
  by (auto simp: setPermissionMap_def forUser_def callWrapped_def Let_def
           split: option.splits bool.splits)

end
